theory Spec2Isabelle
  imports Main "HOL-Library.Word"
begin

unbundle bit_operations_syntax

section \<open>Data model of \<open>png_parser.c\<close>\<close>

text \<open>
  Machine integers. \<open>uint8_t\<close> is \<open>8 word\<close> and \<open>uint32_t\<close> is \<open>32 word\<close>, so that
  their arithmetic wraps as in C. \<open>size_t\<close> is taken to have 64 bits (the LP64 model of
  64-bit Linux, for which the program with its \<open>mmap\<close> and \<open>fstat\<close> calls is written).
  A \<open>size_t\<close> value (a size, a cursor position, a loop counter) is a \<open>nat\<close>, and every
  \<open>size_t\<close> sum of the cursor code is reduced modulo \<open>2 ^ 64\<close> by \<open>size_t\<close>, so that it
  wraps where the C sum wraps. The offsets of the defiltering loop stay in \<open>nat\<close>: the loop
  only runs on a buffer that holds all of them. Arithmetic that C performs in
  \<open>uint32_t\<close> (\<open>out->size + 4\<close>, \<open>width * height\<close>) is written on \<open>32 word\<close>, where it
  does wrap. \<open>int\<close> values of the Paeth filter lie between \<open>-510\<close> and \<open>765\<close> and are
  modelled by \<open>int\<close>.

  Memory. A pointer into the mapped file or into the decompressed buffer is an offset
  (\<open>nat\<close>) into a byte list; a pointer that may be \<open>NULL\<close> is an \<open>option\<close>.
\<close>

type_synonym byte = "8 word"

text \<open>The value a \<open>size_t\<close> expression has after its wrap-around: the number read as a
  64-bit word, that is the number modulo \<open>2 ^ 64\<close>.\<close>

definition size_t :: "nat \<Rightarrow> nat" where
  "size_t n = unat (word_of_nat n :: 64 word)"

text \<open>\<open>struct png_chunk\<close>: \<open>data\<close> points into the file buffer and is kept as the offset
  of the payload's first byte.\<close>

record png_chunk =
  chunk_size :: "32 word"
  chunk_type :: "byte list"
  chunk_data :: nat

text \<open>\<open>struct png_state\<close>: the buffer \<open>ptr\<close>, its \<open>size\<close> and the read position \<open>index\<close>.\<close>

record png_state =
  state_ptr :: "byte list"
  state_size :: nat
  state_index :: nat

text \<open>The payload a chunk views: \<open>chunk_size\<close> bytes of the buffer from \<open>chunk_data\<close>.\<close>

definition chunk_payload :: "byte list \<Rightarrow> png_chunk \<Rightarrow> byte list" where
  "chunk_payload buf c = take (unat (chunk_size c)) (drop (chunk_data c) buf)"

section \<open>The byte cursor\<close>

text \<open>\<open>be_host32\<close> receives the \<open>uint32_t\<close> that \<open>memcpy\<close> filled and reads its four bytes
  in memory order through a \<open>uint8_t *\<close>; the argument here is that byte sequence, so the
  result does not depend on the byte order of the host. The shifts are evaluated in
  \<open>int\<close> and or-ed into the \<open>uint32_t\<close>, which gives the bit pattern written here.\<close>

definition be_host32 :: "byte list \<Rightarrow> 32 word" where
  "be_host32 buf =
     (((0 OR ucast (buf ! 3)) OR push_bit 8 (ucast (buf ! 2)))
        OR push_bit 16 (ucast (buf ! 1))) OR push_bit 24 (ucast (buf ! 0))"

text \<open>\<open>png_fetchN\<close>: \<open>None\<close> is the return value 1 (nothing copied), \<open>Some bs\<close> is the
  return value 0 with \<open>bs\<close> the \<open>count\<close> bytes copied to \<open>out\<close>. The state is passed
  and returned, since the C function updates it through the pointer.\<close>

definition png_fetchN :: "png_state \<Rightarrow> nat \<Rightarrow> byte list option \<times> png_state" where
  "png_fetchN state count =
     (if size_t (state_index state + count) > state_size state then (None, state)
      else (Some (take count (drop (state_index state) (state_ptr state))),
            state\<lparr>state_index := size_t (state_index state + count)\<rparr>))"

definition png_fetch8 :: "png_state \<Rightarrow> byte list option \<times> png_state" where
  "png_fetch8 state = png_fetchN state 1"

definition png_fetch16 :: "png_state \<Rightarrow> byte list option \<times> png_state" where
  "png_fetch16 state = png_fetchN state 2"

definition png_fetch32 :: "png_state \<Rightarrow> byte list option \<times> png_state" where
  "png_fetch32 state = png_fetchN state 4"

text \<open>\<open>png_fetch_next_chunk\<close>: \<open>None\<close> is the return value 1, \<open>Some c\<close> the return value
  0 with the chunk written to \<open>out\<close>. The state keeps whatever the reads before a failure
  advanced. The bound check adds in \<open>size_t\<close>; the final advance adds \<open>out->size + 4\<close> in
  \<open>uint32_t\<close> first, as the C expression \<open>state->index += out->size + 4\<close> does.\<close>

definition png_fetch_next_chunk :: "png_state \<Rightarrow> png_chunk option \<times> png_state" where
  "png_fetch_next_chunk state =
     (case png_fetch32 state of
        (None, s1) \<Rightarrow> (None, s1)
      | (Some raw, s1) \<Rightarrow>
          let sz = be_host32 raw in
          (case png_fetchN s1 4 of
             (None, s2) \<Rightarrow> (None, s2)
           | (Some ty, s2) \<Rightarrow>
               if size_t (state_index s2 + unat sz + 4) > state_size s2 then (None, s2)
               else (Some \<lparr>chunk_size = sz, chunk_type = ty, chunk_data = state_index s2\<rparr>,
                     s2\<lparr>state_index := size_t (state_index s2 + unat (sz + 4))\<rparr>)))"

section \<open>Signature check\<close>

text \<open>\<open>strncmp\<close> on byte strings: at most \<open>n\<close> positions are compared, and the comparison
  stops after a position where both strings hold the terminating zero. The end of a list
  reads as the terminator (a string literal is written without its final zero). C fixes
  only the sign of a non-zero result; the model returns the difference of the first
  differing bytes, and the program only tests the result against zero.\<close>

fun strncmp :: "byte list \<Rightarrow> byte list \<Rightarrow> nat \<Rightarrow> int" where
  "strncmp s1 s2 0 = 0"
| "strncmp s1 s2 (Suc n) =
     (let a = (case s1 of [] \<Rightarrow> 0 | x # _ \<Rightarrow> x);
          b = (case s2 of [] \<Rightarrow> 0 | y # _ \<Rightarrow> y)
      in if a \<noteq> b then uint a - uint b
         else if a = 0 then 0
         else strncmp (tl s1) (tl s2) n)"

text \<open>The literal \<open>"\x89PNG\r\n\x1A\n"\<close>.\<close>

definition png_magic :: "byte list" where
  "png_magic = [0x89, 0x50, 0x4E, 0x47, 0x0D, 0x0A, 0x1A, 0x0A]"

text \<open>\<open>png_check\<close> returns the C result (zero for a match) and the updated state. The
  subtraction \<open>state->index - 8\<close> is one of \<open>size_t\<close>, written on 64-bit words.\<close>

definition png_check :: "png_state \<Rightarrow> int \<times> png_state" where
  "png_check state =
     (if state_size state < 8 then (1, state)
      else
        let state' = state\<lparr>state_index := size_t (state_index state + 8)\<rparr>
        in (strncmp (drop (unat (word_of_nat (state_index state') - 8 :: 64 word))
                             (state_ptr state'))
              png_magic 8, state'))"

section \<open>Gathering the image data\<close>

text \<open>The literals \<open>"IDAT"\<close> and \<open>"IHDR"\<close>.\<close>

definition idat_tag :: "byte list" where
  "idat_tag = [0x49, 0x44, 0x41, 0x54]"

definition ihdr_tag :: "byte list" where
  "ihdr_tag = [0x49, 0x48, 0x44, 0x52]"

text \<open>The \<open>while\<close> loop of \<open>png_decompress_idat\<close>: \<open>state_copy\<close> is the duplicated
  cursor, \<open>input\<close> the buffer grown by \<open>realloc\<close> and \<open>memcpy\<close> (its length is the C
  variable \<open>input_size\<close>). The loop ends at the first chunk read that returns 1. With
  cursor sums that wrap, nothing in the code makes the loop end on every state, so the
  result is an \<open>option\<close>: \<open>None\<close> is a loop that never returns.\<close>

partial_function (option) idat_gather :: "png_state \<Rightarrow> byte list \<Rightarrow> byte list option" where
  [code]: "idat_gather state_copy input =
     (case png_fetch_next_chunk state_copy of
        (None, _) \<Rightarrow> Some input
      | (Some c, s') \<Rightarrow>
          if strncmp idat_tag (chunk_type c) 4 \<noteq> 0 then idat_gather s' input
          else idat_gather s' (input @ chunk_payload (state_ptr s') c))"

text \<open>zlib's \<open>uncompress\<close> is an external codec. It is a parameter of the model: a
  function from the compressed input and the capacity of the output buffer to the status
  and the bytes written (whose number is the updated \<open>out_size\<close>).\<close>

datatype zstatus = Z_OK | Z_MEM_ERROR | Z_BUF_ERROR | Z_DATA_ERROR | Z_OTHER

type_synonym codec = "byte list \<Rightarrow> nat \<Rightarrow> zstatus \<times> byte list"

text \<open>How a run can end before the image is written. An \<open>assert\<close> that fails aborts the
  process; the decompression failures return 1 to \<open>main\<close>, which leaves through \<open>end\<close>.
  \<open>UndefinedBehaviour\<close> stands for an access outside an array or outside the allocated
  buffer, \<open>NoReturn\<close> for a gathering loop that does not end.\<close>

datatype assertion =
  AssertIHDR | AssertSize13 | AssertTruecolor | AssertFilter | AssertInterlace |
  AssertStatus | AssertOutSize

datatype error =
  NotPng | NoChunk | AssertionFailed assertion | DecompressFailed zstatus |
  UndefinedBehaviour | NoReturn

text \<open>The second half of \<open>png_decompress_idat\<close>: what the function returns for the
  status and the output that \<open>uncompress\<close> gave, for an output buffer of \<open>buf_size\<close>
  bytes.\<close>

definition uncompress_outcome :: "zstatus \<times> byte list \<Rightarrow> nat \<Rightarrow> error + byte list" where
  "uncompress_outcome r buf_size =
     (case r of
        (status, out_data) \<Rightarrow>
          if status = Z_MEM_ERROR then Inl (DecompressFailed Z_MEM_ERROR)
          else if status = Z_BUF_ERROR then Inl (DecompressFailed Z_BUF_ERROR)
          else if status = Z_DATA_ERROR then Inl (DecompressFailed Z_DATA_ERROR)
          else if status \<noteq> Z_OK then Inl (AssertionFailed AssertStatus)
          else if length out_data \<noteq> buf_size then Inl (AssertionFailed AssertOutSize)
          else Inr out_data)"

text \<open>\<open>png_decompress_idat\<close>: the gathered \<open>input\<close> is what \<open>uncompress\<close> is called
  with.\<close>

definition png_decompress_idat :: "codec \<Rightarrow> png_state \<Rightarrow> nat \<Rightarrow> error + byte list" where
  "png_decompress_idat uncompress state buf_size =
     (case idat_gather state [] of
        None \<Rightarrow> Inl NoReturn
      | Some input \<Rightarrow> uncompress_outcome (uncompress input buf_size) buf_size)"

section \<open>The filters\<close>

text \<open>\<open>mem\<close> is the decompressed buffer, \<open>line\<close> and \<open>prev_line\<close> are offsets into it.
  A \<open>uint8_t\<close> operand is promoted to \<open>int\<close>, and the \<open>uint8_t\<close> return type reduces the
  result modulo 256: a sum of two bytes is the addition of \<open>8 word\<close>, and where the C
  expression holds a value that is no byte (the average, the Paeth distances) the \<open>int\<close>
  computation is written out and \<open>word_of_int\<close> is the final conversion.\<close>

definition png_sub_filter :: "byte list \<Rightarrow> nat \<Rightarrow> nat \<Rightarrow> nat \<Rightarrow> nat \<Rightarrow> byte" where
  "png_sub_filter mem line pixel_size x i =
     (if x = 0 then mem ! (line + (pixel_size * x + i))
      else mem ! (line + (pixel_size * x + i)) + mem ! (line + (pixel_size * (x - 1) + i)))"

definition png_up_filter :: "byte list \<Rightarrow> nat \<Rightarrow> nat option \<Rightarrow> nat \<Rightarrow> nat \<Rightarrow> nat \<Rightarrow> byte" where
  "png_up_filter mem line prev_line pixel_size x i =
     (case prev_line of
        None \<Rightarrow> mem ! (line + (pixel_size * x + i))
      | Some pl \<Rightarrow> mem ! (line + (pixel_size * x + i)) + mem ! (pl + (pixel_size * x + i)))"

definition png_avg_filter :: "byte list \<Rightarrow> nat \<Rightarrow> nat option \<Rightarrow> nat \<Rightarrow> nat \<Rightarrow> nat \<Rightarrow> byte" where
  "png_avg_filter mem line prev_line pixel_size x i =
     (let left = (if x \<noteq> 0 then mem ! (line + (pixel_size * (x - 1) + i)) else 0);
          top = (case prev_line of
                   Some pl \<Rightarrow> mem ! (pl + (pixel_size * x + i))
                 | None \<Rightarrow> 0)
      in word_of_int ((uint left + uint top) div 2 + uint (mem ! (line + (pixel_size * x + i)))))"

definition png_abs :: "int \<Rightarrow> int" where
  "png_abs x = (if x < 0 then - x else x)"

definition png_paeth_filter :: "byte list \<Rightarrow> nat \<Rightarrow> nat option \<Rightarrow> nat \<Rightarrow> nat \<Rightarrow> nat \<Rightarrow> byte" where
  "png_paeth_filter mem line prev_line pixel_size x i =
     (let d = uint (mem ! (line + (pixel_size * x + i)));
          a = (if x \<noteq> 0 then uint (mem ! (line + (pixel_size * (x - 1) + i))) else 0);
          b = (case prev_line of
                 Some pl \<Rightarrow> uint (mem ! (pl + (pixel_size * x + i)))
               | None \<Rightarrow> 0);
          c = (case prev_line of
                 Some pl \<Rightarrow> if x \<noteq> 0 then uint (mem ! (pl + (pixel_size * (x - 1) + i))) else 0
               | None \<Rightarrow> 0);
          p = a + b - c;
          pa = png_abs (p - a);
          pb = png_abs (p - b);
          pc = png_abs (p - c)
      in if pa \<le> pb \<and> pa \<le> pc then word_of_int (d + a)
         else if pb \<le> pc then word_of_int (d + b)
         else word_of_int (d + c))"

section \<open>The defiltering loop of \<open>main\<close>\<close>

text \<open>What the loop changes: the buffer \<open>buf\<close> (updated in place), the text written to
  \<open>foo.ppm\<close> (one token for each number and one for each line end) and the
  \<open>invalid filter\<close> messages on \<open>stderr\<close> (the filter byte each one prints). The
  text of the \<open>printf\<close> lines on \<open>stdout\<close> is not part of the model; the read of the
  table \<open>filter_methods\<close> that one of them makes is.\<close>

datatype ppm_token = Sample byte | EndOfRow

record decode_state =
  d_buf :: "byte list"
  d_out :: "ppm_token list"
  d_err :: "byte list"

text \<open>The \<open>switch\<close>: the value assigned to \<open>actual_value\<close>.\<close>

definition switch_filter ::
    "byte \<Rightarrow> byte list \<Rightarrow> nat \<Rightarrow> nat option \<Rightarrow> nat \<Rightarrow> nat \<Rightarrow> nat \<Rightarrow> byte" where
  "switch_filter filter_method mem line prev_line pixel_size x i =
     (if filter_method = 0 then mem ! (line + (x * pixel_size + i))
      else if filter_method = 1 then png_sub_filter mem line pixel_size x i
      else if filter_method = 2 then png_up_filter mem line prev_line pixel_size x i
      else if filter_method = 3 then png_avg_filter mem line prev_line pixel_size x i
      else if filter_method = 4 then png_paeth_filter mem line prev_line pixel_size x i
      else 0xFF)"

text \<open>The body of the innermost loop, for one byte at \<open>(x, i)\<close>.\<close>

definition defilter_byte ::
    "byte \<Rightarrow> nat \<Rightarrow> nat option \<Rightarrow> nat \<Rightarrow> nat \<Rightarrow> nat \<Rightarrow> decode_state \<Rightarrow> decode_state" where
  "defilter_byte filter_method line prev_line pixel_size x i st =
     (let actual_value = switch_filter filter_method (d_buf st) line prev_line pixel_size x i
      in \<lparr>d_buf = (d_buf st)[line + (x * pixel_size + i) := actual_value],
          d_out = (if i < 3 then d_out st @ [Sample actual_value] else d_out st),
          d_err = (if filter_method \<in> {0, 1, 2, 3, 4} then d_err st
                   else d_err st @ [filter_method])\<rparr>)"

text \<open>The loop over \<open>i\<close>.\<close>

definition defilter_pixel ::
    "byte \<Rightarrow> nat \<Rightarrow> nat option \<Rightarrow> nat \<Rightarrow> nat \<Rightarrow> decode_state \<Rightarrow> decode_state" where
  "defilter_pixel filter_method line prev_line pixel_size x st =
     fold (defilter_byte filter_method line prev_line pixel_size x) [0..<pixel_size] st"

text \<open>The body of the loop over \<open>y\<close> from the declaration of \<open>prev_line\<close> on: the loop
  over \<open>x\<close> and the line end written behind it.\<close>

definition defilter_line :: "byte \<Rightarrow> nat \<Rightarrow> nat \<Rightarrow> nat \<Rightarrow> decode_state \<Rightarrow> decode_state" where
  "defilter_line filter_method width pixel_size y st =
     (let line = y * (width * pixel_size + 1) + 1;
          prev_line = (if y \<noteq> 0 then Some ((y - 1) * (width * pixel_size + 1) + 1) else None);
          st' = fold (defilter_pixel filter_method line prev_line pixel_size) [0..<width] st
      in st'\<lparr>d_out := d_out st' @ [EndOfRow]\<rparr>)"

text \<open>The table \<open>filter_methods\<close> of the five filter names.\<close>

definition filter_methods :: "string list" where
  "filter_methods = [''none'', ''sub'', ''up'', ''average'', ''paeth'']"

text \<open>The whole body of the loop over \<open>y\<close>. It begins by reading the filter byte and
  printing \<open>filter_methods[filter_method]\<close>: for a filter byte above 4 that read is
  outside the table, which is undefined behaviour in C, and the model ends the run there
  with \<open>UndefinedBehaviour\<close>.\<close>

definition defilter_row :: "nat \<Rightarrow> nat \<Rightarrow> nat \<Rightarrow> decode_state \<Rightarrow> error + decode_state" where
  "defilter_row width pixel_size y st =
     (let filter_method = d_buf st ! (y * (width * pixel_size + 1))
      in if length filter_methods \<le> unat filter_method then Inl UndefinedBehaviour
         else Inr (defilter_line filter_method width pixel_size y st))"

text \<open>The loop over \<open>y\<close>; nothing follows a row that ended the run.\<close>

definition defilter :: "nat \<Rightarrow> nat \<Rightarrow> nat \<Rightarrow> decode_state \<Rightarrow> error + decode_state" where
  "defilter width height pixel_size st =
     fold (\<lambda>y r. case r of Inl e \<Rightarrow> Inl e | Inr s \<Rightarrow> defilter_row width pixel_size y s)
       [0..<height] (Inr st)"

section \<open>The header and \<open>main\<close>\<close>

text \<open>The local variables that \<open>main\<close> reads from the first chunk.\<close>

record png_header =
  hdr_width :: "32 word"
  hdr_height :: "32 word"
  hdr_bit_depth :: byte
  hdr_color_type :: byte
  hdr_compression :: byte
  hdr_filter :: byte
  hdr_interlace :: byte
  hdr_pixel_size :: nat

text \<open>Lines 270 to 292 of \<open>main\<close>: the assertions on the first chunk and the header
  fields. \<open>mem\<close> is the file buffer the chunk points into.\<close>

definition main_header :: "byte list \<Rightarrow> png_chunk \<Rightarrow> error + png_header" where
  "main_header mem c =
     (if strncmp ihdr_tag (chunk_type c) 4 \<noteq> 0 then Inl (AssertionFailed AssertIHDR)
      else if chunk_size c \<noteq> 13 then Inl (AssertionFailed AssertSize13)
      else
        let data = drop (chunk_data c) mem;
            width = be_host32 (take 4 data);
            height = be_host32 (take 4 (drop 4 data));
            bit_depth = data ! 8;
            color_type = data ! 9;
            compression = data ! 10;
            filter_m = data ! 11;
            interlace = data ! 12;
            is_truecolor = color_type AND 2;
            has_palette = color_type AND 1;
            has_alpha = color_type AND 4
        in if \<not> (is_truecolor \<noteq> 0 \<and> \<not> has_palette \<noteq> 0)
           then Inl (AssertionFailed AssertTruecolor)
           else
             let pixel_size = (if has_alpha \<noteq> 0 then 4 else 3) * (unat bit_depth div 8)
             in if filter_m \<noteq> 0 then Inl (AssertionFailed AssertFilter)
                else if interlace \<noteq> 0 then Inl (AssertionFailed AssertInterlace)
                else Inr \<lparr>hdr_width = width, hdr_height = height, hdr_bit_depth = bit_depth,
                          hdr_color_type = color_type, hdr_compression = compression,
                          hdr_filter = filter_m, hdr_interlace = interlace,
                          hdr_pixel_size = pixel_size\<rparr>)"

text \<open>\<open>main\<close> on a mapped file. \<open>raw_size\<close> multiplies \<open>width * height\<close> in \<open>uint32_t\<close>
  and the rest in \<open>size_t\<close>. The loop touches the offsets below
  \<open>height * (width * pixel_size + 1)\<close>; when the buffer of \<open>raw_size\<close> bytes is shorter
  than that, the C program reads and writes outside it, which the model reports as
  \<open>UndefinedBehaviour\<close> instead of running the loop.\<close>

definition png_main :: "codec \<Rightarrow> byte list \<Rightarrow> error + png_header \<times> decode_state" where
  "png_main uncompress file =
     (case png_check \<lparr>state_ptr = file, state_size = length file, state_index = 0\<rparr> of
        (r, state) \<Rightarrow>
          if r \<noteq> 0 then Inl NotPng
          else
            (case png_fetch_next_chunk state of
               (None, _) \<Rightarrow> Inl NoChunk
             | (Some c, state') \<Rightarrow>
                 (case main_header file c of
                    Inl e \<Rightarrow> Inl e
                  | Inr h \<Rightarrow>
                      let width = hdr_width h;
                          height = hdr_height h;
                          pixel_size = hdr_pixel_size h;
                          raw_size = unat (width * height) * pixel_size + unat height
                      in (case png_decompress_idat uncompress state' raw_size of
                            Inl e \<Rightarrow> Inl e
                          | Inr raw_data \<Rightarrow>
                              if unat height * (unat width * pixel_size + 1) > length raw_data
                              then Inl UndefinedBehaviour
                              else
                                (case defilter (unat width) (unat height) pixel_size
                                        \<lparr>d_buf = raw_data, d_out = [], d_err = []\<rparr> of
                                   Inl e \<Rightarrow> Inl e
                                 | Inr st \<Rightarrow> Inr (h, st))))))"

section \<open>Reference definitions for the filters\<close>

text \<open>The neighbours of the byte at \<open>(x, i)\<close> of the row at \<open>line\<close>: the byte one pixel
  to the left, the byte above and the byte above the left one, each 0 when the row or
  column it lies in does not exist.\<close>

definition left_of :: "byte list \<Rightarrow> nat \<Rightarrow> nat \<Rightarrow> nat \<Rightarrow> nat \<Rightarrow> byte" where
  "left_of mem line pixel_size x i =
     (if x = 0 then 0 else mem ! (line + (pixel_size * (x - 1) + i)))"

definition up_of :: "byte list \<Rightarrow> nat option \<Rightarrow> nat \<Rightarrow> nat \<Rightarrow> nat \<Rightarrow> byte" where
  "up_of mem prev_line pixel_size x i =
     (case prev_line of None \<Rightarrow> 0 | Some pl \<Rightarrow> mem ! (pl + (pixel_size * x + i)))"

definition up_left_of :: "byte list \<Rightarrow> nat option \<Rightarrow> nat \<Rightarrow> nat \<Rightarrow> nat \<Rightarrow> byte" where
  "up_left_of mem prev_line pixel_size x i =
     (case prev_line of
        None \<Rightarrow> 0
      | Some pl \<Rightarrow> if x = 0 then 0 else mem ! (pl + (pixel_size * (x - 1) + i)))"

text \<open>The Average rule read with every operation in 8-bit unsigned arithmetic, the sum
  \<open>left + up\<close> included: the specification's wording, kept apart from the code's
  \<open>png_avg_filter\<close> to compare the two.\<close>

definition average_mod256 :: "byte \<Rightarrow> byte \<Rightarrow> byte \<Rightarrow> byte" where
  "average_mod256 raw left up = raw + (left + up) div 2"

text \<open>The Paeth rule in the specification's words: the predictor chosen among
  \<open>a\<close> (left), \<open>b\<close> (up) and \<open>c\<close> (up-left), with the distances computed over the
  integers and ties resolved in the order \<open>a\<close>, \<open>b\<close>, \<open>c\<close>.\<close>

definition paeth_predictor :: "byte \<Rightarrow> byte \<Rightarrow> byte \<Rightarrow> byte" where
  "paeth_predictor a b c =
     (let p = uint a + uint b - uint c;
          pa = \<bar>p - uint a\<bar>;
          pb = \<bar>p - uint b\<bar>;
          pc = \<bar>p - uint c\<bar>
      in if pa \<le> pb \<and> pa \<le> pc then a else if pb \<le> pc then b else c)"

text \<open>A stand-in for the codec that answers every call with a fixed status and output;
  it lets \<open>main\<close> be evaluated on a concrete file.\<close>

definition stub_codec :: "zstatus \<Rightarrow> byte list \<Rightarrow> codec" where
  "stub_codec status out_data input buf_size = (status, out_data)"

text \<open>A stand-in for the codec that hands back its input as the output, which shows what
  the codec was called with.\<close>

definition echo_codec :: codec where
  "echo_codec input buf_size = (Z_OK, input)"

section \<open>The filter encoder\<close>

text \<open>The repository only decodes; the encoder that the round-trip property of the
  specification speaks of is not part of it. The encoder of this section is therefore
  written from the specification: filtering replaces every byte of a row by the
  byte minus the predictor of the row's filter type, modulo 256 ("the encoder's own
  modulo-256 addition"), where the predictor is taken from the original bytes to the left,
  above and above-left, each 0 when absent.\<close>

text \<open>Modelled from the spec: the predictor of the missing encoder for filter type \<open>t\<close>,
  from \<open>a\<close> (left), \<open>b\<close> (up) and \<open>c\<close> (up-left): nothing for type 0 (None), \<open>a\<close> for
  type 1 (Sub), \<open>b\<close> for type 2 (Up), the half of the exact sum of \<open>a\<close> and \<open>b\<close> for
  type 3 (Average), the Paeth choice for type 4.\<close>

definition predictor :: "byte \<Rightarrow> byte \<Rightarrow> byte \<Rightarrow> byte \<Rightarrow> byte" where
  "predictor t a b c =
     (if t = 0 then 0
      else if t = 1 then a
      else if t = 2 then b
      else if t = 3 then word_of_int ((uint a + uint b) div 2)
      else paeth_predictor a b c)"

text \<open>Modelled from the spec: the missing encoder on one row of \<open>ps\<close>-byte pixels, given
  the original row above (\<open>prev\<close>); the byte one pixel to the left is \<open>ps\<close> positions
  back.\<close>

definition filter_row :: "byte \<Rightarrow> nat \<Rightarrow> byte list \<Rightarrow> byte list \<Rightarrow> byte list" where
  "filter_row t ps prev row =
     map (\<lambda>j. row ! j
            - predictor t (if ps \<le> j then row ! (j - ps) else 0) (prev ! j)
                (if ps \<le> j then prev ! (j - ps) else 0))
       [0..<length row]"

text \<open>Modelled from the spec: the missing encoder on a whole image, every row filtered
  with type \<open>t\<close> and prefixed by its filter-type byte; the row above the first row counts
  as zeros.\<close>

definition filter_image :: "byte \<Rightarrow> nat \<Rightarrow> byte list list \<Rightarrow> byte list" where
  "filter_image t ps rows =
     concat (map (\<lambda>y. t # filter_row t ps
                          (if y = 0 then replicate (length (rows ! 0)) 0 else rows ! (y - 1))
                          (rows ! y))
               [0..<length rows])"

text \<open>The layout of the buffer once it is defiltered: each original row behind its
  filter-type byte, \<open>width * pixel_size + 1\<close> bytes a row.\<close>

definition tagged_rows :: "byte \<Rightarrow> byte list list \<Rightarrow> byte list" where
  "tagged_rows t rows = concat (map (\<lambda>row. t # row) rows)"

section \<open>Auxiliary notions for the loop invariants\<close>

text \<open>The buffer while it is being defiltered: the first \<open>n\<close> bytes are restored, the
  rest is still filtered.\<close>

definition hybrid :: "byte list \<Rightarrow> byte list \<Rightarrow> nat \<Rightarrow> byte list" where
  "hybrid orig enc n = take n orig @ drop n enc"

section \<open>The layout of a chunk in the file\<close>

text \<open>A chunk as the file stores it, used to describe inputs: the payload length as
  four bytes, most significant first, then the four-byte type tag, the payload and the
  four checksum bytes.\<close>

definition be32_bytes :: "32 word \<Rightarrow> byte list" where
  "be32_bytes w = [ucast (drop_bit 24 w), ucast (drop_bit 16 w), ucast (drop_bit 8 w), ucast w]"

datatype file_chunk =
  FileChunk (fc_type: "byte list") (fc_payload: "byte list") (fc_crc: "byte list")

definition chunk_bytes :: "file_chunk \<Rightarrow> byte list" where
  "chunk_bytes c =
     be32_bytes (word_of_nat (length (fc_payload c))) @ fc_type c @ fc_payload c @ fc_crc c"

section \<open>Comparing against a literal\<close>

text \<open>Against a literal of \<open>n\<close> non-zero bytes, \<open>strncmp\<close> is zero exactly when the other
  string starts with the literal.\<close>

lemma strncmp_literal_right:
  "length t = n \<Longrightarrow> 0 \<notin> set t \<Longrightarrow> (strncmp s t n = 0) = (take n s = t)"
proof (induction n arbitrary: s t)
  case 0
  then show ?case by simp
next
  case (Suc n)
  then obtain y t' where t: "t = y # t'" "length t' = n" "y \<noteq> 0" "0 \<notin> set t'"
    by (cases t) auto
  show ?case
  proof (cases s)
    case Nil
    with t show ?thesis by (simp add: Let_def uint_0_iff)
  next
    case (Cons x s')
    with t Suc.IH [of t' s'] show ?thesis
      by (auto simp: Let_def uint_0_iff word_uint_eq_iff [symmetric])
  qed
qed

lemma strncmp_literal_left:
  "length s = n \<Longrightarrow> 0 \<notin> set s \<Longrightarrow> (strncmp s t n = 0) = (take n t = s)"
proof (induction n arbitrary: s t)
  case 0
  then show ?case by simp
next
  case (Suc n)
  then obtain y s' where s: "s = y # s'" "length s' = n" "y \<noteq> 0" "0 \<notin> set s'"
    by (cases s) auto
  show ?case
  proof (cases t)
    case Nil
    with s show ?thesis by (simp add: Let_def uint_0_iff)
  next
    case (Cons x t')
    with s Suc.IH [of s' t'] show ?thesis
      by (auto simp: Let_def uint_0_iff word_uint_eq_iff [symmetric])
  qed
qed

lemma strncmp_ihdr: "(strncmp ihdr_tag t 4 = 0) = (take 4 t = ihdr_tag)"
  using strncmp_literal_left [of ihdr_tag 4 t] by (simp add: ihdr_tag_def)

lemma strncmp_idat: "(strncmp idat_tag t 4 = 0) = (take 4 t = idat_tag)"
  using strncmp_literal_left [of idat_tag 4 t] by (simp add: idat_tag_def)

lemma strncmp_magic: "(strncmp s png_magic 8 = 0) = (take 8 s = png_magic)"
  using strncmp_literal_right [of png_magic 8 s] by (simp add: png_magic_def)

lemma strncmp_numeral:
  "strncmp s1 s2 (numeral k) =
     (let a = (case s1 of [] \<Rightarrow> 0 | x # _ \<Rightarrow> x);
          b = (case s2 of [] \<Rightarrow> 0 | y # _ \<Rightarrow> y)
      in if a \<noteq> b then uint a - uint b
         else if a = 0 then 0
         else strncmp (tl s1) (tl s2) (pred_numeral k))"
  by (simp only: numeral_eq_Suc strncmp.simps)

section \<open>The byte cursor: reads fail whole or advance exactly\<close>

lemma size_t_mod: "size_t n = n mod 2 ^ 64"
  by (simp add: size_t_def unat_of_nat)

lemma size_t_less: "n < 2 ^ 64 \<Longrightarrow> size_t n = n"
  by (simp add: size_t_mod)

text \<open>
  Claim C6. A read of \<open>n\<close> bytes at position \<open>state_index s\<close> of a buffer of
  \<open>state_size s\<close> bytes, with \<open>position + n\<close> below \<open>2 ^ 64\<close> as in every read of the
  program (\<open>n\<close> is 1, 2 or 4): when \<open>position + n\<close> exceeds the size, \<open>png_fetchN\<close>
  returns 1 and the state, position included, is unchanged; otherwise it returns 0, hands
  out the \<open>n\<close> bytes at the position and advances the position by exactly \<open>n\<close>. For
  every \<open>n\<close>, a position within the buffer stays within the buffer.
\<close>

theorem png_fetchN_contract:
  "(state_index s + n < 2 ^ 64 \<longrightarrow>
      (state_size s < state_index s + n \<longrightarrow> png_fetchN s n = (None, s))
      \<and> (state_index s + n \<le> state_size s \<longrightarrow>
           png_fetchN s n = (Some (take n (drop (state_index s) (state_ptr s))),
                             s\<lparr>state_index := state_index s + n\<rparr>))
      \<and> (state_index s + n \<le> state_size s \<and> state_size s = length (state_ptr s) \<longrightarrow>
           length (take n (drop (state_index s) (state_ptr s))) = n))
   \<and> (state_index s \<le> state_size s \<longrightarrow>
        state_index (snd (png_fetchN s n)) \<le> state_size (snd (png_fetchN s n))
        \<and> state_size (snd (png_fetchN s n)) = state_size s
        \<and> state_ptr (snd (png_fetchN s n)) = state_ptr s)"
  by (auto simp: png_fetchN_def size_t_less)

theorem png_fetchN_contract_witness:
  "png_fetchN \<lparr>state_ptr = [1, 2, 3, 4, 5], state_size = 5, state_index = 1\<rparr> 4
     = (Some [2, 3, 4, 5], \<lparr>state_ptr = [1, 2, 3, 4, 5], state_size = 5, state_index = 5\<rparr>)
   \<and> png_fetchN \<lparr>state_ptr = [1, 2, 3, 4, 5], state_size = 5, state_index = 2\<rparr> 4
     = (None, \<lparr>state_ptr = [1, 2, 3, 4, 5], state_size = 5, state_index = 2\<rparr>)"
  using png_fetchN_contract [of "\<lparr>state_ptr = [1, 2, 3, 4, 5], state_size = 5, state_index = 1\<rparr>" 4]
    png_fetchN_contract [of "\<lparr>state_ptr = [1, 2, 3, 4, 5], state_size = 5, state_index = 2\<rparr>" 4]
  by simp

section \<open>The signature check moves the cursor first\<close>

text \<open>
  Claim C9. Started at position 0 on a buffer of at least 8 bytes, \<open>png_check\<close> leaves
  the position at 8 whether or not the first 8 bytes are the PNG magic (its result is zero
  exactly when they are); on a buffer of fewer than 8 bytes it fails and the position
  stays 0.
\<close>

theorem png_check_position:
  assumes "state_index s = 0"
  shows "(8 \<le> state_size s \<longrightarrow> state_index (snd (png_check s)) = 8)
    \<and> (8 \<le> state_size s \<longrightarrow>
         (fst (png_check s) = 0) = (take 8 (state_ptr s) = png_magic))
    \<and> (state_size s < 8 \<longrightarrow> fst (png_check s) \<noteq> 0 \<and> state_index (snd (png_check s)) = 0)"
  using assms strncmp_literal_right [of png_magic 8 "state_ptr s"]
  by (simp add: png_check_def Let_def png_magic_def size_t_mod)

theorem png_check_position_witness:
  "state_index (snd (png_check \<lparr>state_ptr = [1, 2, 3, 4, 5, 6, 7, 8, 9], state_size = 9,
      state_index = 0\<rparr>)) = 8
   \<and> fst (png_check \<lparr>state_ptr = [1, 2, 3, 4, 5, 6, 7, 8, 9], state_size = 9,
      state_index = 0\<rparr>) \<noteq> 0
   \<and> state_index (snd (png_check \<lparr>state_ptr = [1, 2, 3], state_size = 3,
      state_index = 0\<rparr>)) = 0"
  using png_check_position [of "\<lparr>state_ptr = [1, 2, 3, 4, 5, 6, 7, 8, 9], state_size = 9,
      state_index = 0\<rparr>"]
    png_check_position [of "\<lparr>state_ptr = [1, 2, 3], state_size = 3, state_index = 0\<rparr>"]
  by (simp add: png_magic_def)

section \<open>The Average filter\<close>

text \<open>
  Claim C3, as the code has it. A byte reconstructed under filter type 3 is
  \<open>(raw + (left + up) div 2) mod 256\<close>, with \<open>left\<close> and \<open>up\<close> 0 when the neighbour is
  absent: the sum \<open>left + up\<close> and its half are computed exactly (\<open>left + up\<close> may reach
  510), and only the final addition of \<open>raw\<close> wraps modulo 256.
\<close>

theorem png_avg_filter_exact_sum:
  "unat (png_avg_filter mem line prev_line pixel_size x i)
     = (unat (mem ! (line + (pixel_size * x + i)))
        + (unat (left_of mem line pixel_size x i) + unat (up_of mem prev_line pixel_size x i)) div 2)
       mod 256"
proof -
  have "unat (word_of_int ((uint l + uint u) div 2 + uint r) :: byte)
      = (unat r + (unat l + unat u) div 2) mod 256" for l u r :: byte
  proof -
    have "(uint l + uint u) div 2 + uint r = int ((unat l + unat u) div 2 + unat r)"
      by (simp add: zdiv_int)
    then show ?thesis
      by (simp only: unat_of_nat of_int_of_nat_eq) (simp add: add.commute)
  qed
  then show ?thesis
    by (simp add: png_avg_filter_def left_of_def up_of_def Let_def split: option.split)
qed

text \<open>
  Claim C3 as stated has all arithmetic modulo 256, so that the sum \<open>left + up\<close> wraps
  too. With \<open>left = 200\<close>, \<open>up = 100\<close> and \<open>raw = 0\<close> (first byte of the second pixel in
  the second row of a 2 by 2 image of 3-byte pixels, rows of 7 bytes) the code yields
  \<open>300 div 2 = 150\<close>, the 8-bit reading \<open>(300 mod 256) div 2 = 22\<close>.
\<close>

theorem png_avg_filter_counterexample:
  "png_avg_filter [0, 0, 0, 0, 100, 0, 0, 3, 200, 0, 0, 0, 0, 0] 8 (Some 1) 3 1 0 = 150
   \<and> average_mod256 0 200 100 = 22"
  by (simp add: png_avg_filter_def average_mod256_def Let_def)

section \<open>The Paeth filter\<close>

lemma png_abs_eq: "png_abs x = \<bar>x\<bar>"
  by (simp add: png_abs_def)

lemma paeth_core:
  "(let d = uint dd; a = uint l; b = uint u; c = uint ul;
        p = a + b - c;
        pa = png_abs (p - a);
        pb = png_abs (p - b);
        pc = png_abs (p - c)
    in if pa \<le> pb \<and> pa \<le> pc then word_of_int (d + a)
       else if pb \<le> pc then word_of_int (d + b)
       else word_of_int (d + c)) = dd + paeth_predictor l u ul"
  by (simp add: paeth_predictor_def png_abs_eq Let_def)

text \<open>Each filter adds its predictor to the filtered byte.\<close>

lemma png_sub_filter_eq:
  "png_sub_filter mem line ps x i = mem ! (line + (ps * x + i)) + left_of mem line ps x i"
  by (simp add: png_sub_filter_def left_of_def)

lemma png_up_filter_eq:
  "png_up_filter mem line prev ps x i = mem ! (line + (ps * x + i)) + up_of mem prev ps x i"
  by (simp add: png_up_filter_def up_of_def split: option.split)

lemma png_avg_filter_eq:
  "png_avg_filter mem line prev ps x i
     = mem ! (line + (ps * x + i))
       + word_of_int ((uint (left_of mem line ps x i) + uint (up_of mem prev ps x i)) div 2)"
  by (simp add: png_avg_filter_def left_of_def up_of_def Let_def split: option.split)

lemma png_paeth_filter_eq:
  "png_paeth_filter mem line prev_line pixel_size x i
     = mem ! (line + (pixel_size * x + i))
       + paeth_predictor (left_of mem line pixel_size x i) (up_of mem prev_line pixel_size x i)
           (up_left_of mem prev_line pixel_size x i)"
proof -
  have l: "(if x \<noteq> 0 then uint (mem ! (line + (pixel_size * (x - 1) + i))) else 0)
      = uint (left_of mem line pixel_size x i)"
    by (simp add: left_of_def)
  have u: "(case prev_line of Some pl \<Rightarrow> uint (mem ! (pl + (pixel_size * x + i))) | None \<Rightarrow> 0)
      = uint (up_of mem prev_line pixel_size x i)"
    by (simp add: up_of_def split: option.split)
  have ul: "(case prev_line of
          Some pl \<Rightarrow> if x \<noteq> 0 then uint (mem ! (pl + (pixel_size * (x - 1) + i))) else 0
        | None \<Rightarrow> 0)
      = uint (up_left_of mem prev_line pixel_size x i)"
    by (simp add: up_left_of_def split: option.split)
  show ?thesis
    unfolding png_paeth_filter_def l u ul by (rule paeth_core)
qed

lemma switch_filter_predictor:
  assumes "t \<in> {0, 1, 2, 3, 4}"
  shows "switch_filter t mem line prev ps x i
     = mem ! (line + (ps * x + i))
       + predictor t (left_of mem line ps x i) (up_of mem prev ps x i)
           (up_left_of mem prev ps x i)"
proof -
  have "mem ! (line + (x * ps + i)) = mem ! (line + (ps * x + i))"
    by (simp add: mult.commute)
  with assms show ?thesis
    unfolding switch_filter_def predictor_def
      png_sub_filter_eq png_up_filter_eq png_avg_filter_eq png_paeth_filter_eq
    by auto
qed

text \<open>
  Claim C8. A byte reconstructed under filter type 4 is \<open>raw + chosen\<close> modulo 256, where
  \<open>chosen\<close> is the Paeth predictor of the left, up and up-left neighbours (0 when absent):
  \<open>a\<close> if \<open>pa \<le> pb\<close> and \<open>pa \<le> pc\<close>, else \<open>b\<close> if \<open>pb \<le> pc\<close>, else \<open>c\<close>, the distances
  being computed over the integers; when \<open>a = b = c\<close> the predictor is \<open>a\<close>.
\<close>

theorem png_paeth_filter_choice:
  "png_paeth_filter mem line prev_line pixel_size x i
     = mem ! (line + (pixel_size * x + i))
       + paeth_predictor (left_of mem line pixel_size x i) (up_of mem prev_line pixel_size x i)
           (up_left_of mem prev_line pixel_size x i)
   \<and> unat (png_paeth_filter mem line prev_line pixel_size x i)
     = (unat (mem ! (line + (pixel_size * x + i)))
        + unat (paeth_predictor (left_of mem line pixel_size x i)
             (up_of mem prev_line pixel_size x i) (up_left_of mem prev_line pixel_size x i)))
       mod 256
   \<and> paeth_predictor a a a = a"
proof -
  have "paeth_predictor a a a = a"
    by (simp add: paeth_predictor_def)
  then show ?thesis
    unfolding png_paeth_filter_eq by (simp add: unat_word_ariths)
qed

section \<open>Header validation\<close>

text \<open>
  Claim C10. For a first chunk tagged \<open>IHDR\<close> of length 13, the header is accepted only
  when the colour type has the truecolor bit (2) set and the palette bit (1) clear; a
  colour type with the truecolor bit clear (grayscale, with or without alpha) fails the
  assertion whatever the bit depth, and so does one with the palette bit set.
\<close>

theorem main_header_color_type:
  assumes "strncmp ihdr_tag (chunk_type c) 4 = 0" and "chunk_size c = 13"
  shows "((\<exists>h. main_header mem c = Inr h) \<longrightarrow>
            drop (chunk_data c) mem ! 9 AND 2 \<noteq> 0 \<and> drop (chunk_data c) mem ! 9 AND 1 = 0)
    \<and> (drop (chunk_data c) mem ! 9 AND 2 = 0 \<longrightarrow>
          main_header mem c = Inl (AssertionFailed AssertTruecolor))
    \<and> (drop (chunk_data c) mem ! 9 AND 1 \<noteq> 0 \<longrightarrow>
          main_header mem c = Inl (AssertionFailed AssertTruecolor))"
  using assms by (auto simp: main_header_def Let_def split: if_splits)

theorem main_header_color_type_witness:
  "main_header [0, 0, 0, 2, 0, 0, 0, 2, 8, 0, 0, 0, 0]
      \<lparr>chunk_size = 13, chunk_type = [0x49, 0x48, 0x44, 0x52], chunk_data = 0\<rparr>
     = Inl (AssertionFailed AssertTruecolor)
   \<and> main_header [0, 0, 0, 2, 0, 0, 0, 2, 8, 4, 0, 0, 0]
      \<lparr>chunk_size = 13, chunk_type = [0x49, 0x48, 0x44, 0x52], chunk_data = 0\<rparr>
     = Inl (AssertionFailed AssertTruecolor)"
  using main_header_color_type [of "\<lparr>chunk_size = 13, chunk_type = [0x49, 0x48, 0x44, 0x52], chunk_data = 0\<rparr>"
      "[0, 0, 0, 2, 0, 0, 0, 2, 8, 0, 0, 0, 0]"]
    main_header_color_type [of "\<lparr>chunk_size = 13, chunk_type = [0x49, 0x48, 0x44, 0x52], chunk_data = 0\<rparr>"
      "[0, 0, 0, 2, 0, 0, 0, 2, 8, 4, 0, 0, 0]"]
  by (simp add: strncmp_numeral ihdr_tag_def Let_def)

lemma png_main_header_failure:
  assumes "png_check \<lparr>state_ptr = file, state_size = length file, state_index = 0\<rparr> = (0, st)"
    and "png_fetch_next_chunk st = (Some c, st')"
    and "main_header file c = Inl e"
  shows "png_main codec file = Inl e"
  using assms by (simp add: png_main_def)

text \<open>
  Claim C2, as the code has it. When the first chunk is tagged \<open>IHDR\<close> and has length
  13: a colour type with the palette bit set or the truecolor bit clear, a non-zero filter
  method and a non-zero interlace method each fail an assertion, and \<open>main\<close> ends with
  that failure whatever the codec would do, that is before any image data is gathered or
  decompressed. The bit depth is not checked: when the other fields pass, the header is
  accepted for every bit depth, with pixel size \<open>channels * (bit_depth div 8)\<close>.
\<close>

theorem header_validation:
  assumes "png_check \<lparr>state_ptr = file, state_size = length file, state_index = 0\<rparr> = (0, st)"
    and "png_fetch_next_chunk st = (Some c, st')"
    and "strncmp ihdr_tag (chunk_type c) 4 = 0" and "chunk_size c = 13"
  shows "(drop (chunk_data c) file ! 9 AND 1 \<noteq> 0 \<or> drop (chunk_data c) file ! 9 AND 2 = 0
          \<or> drop (chunk_data c) file ! 11 \<noteq> 0 \<or> drop (chunk_data c) file ! 12 \<noteq> 0 \<longrightarrow>
          (\<exists>a. main_header file c = Inl (AssertionFailed a)
             \<and> (\<forall>codec. png_main codec file = Inl (AssertionFailed a))))
    \<and> (drop (chunk_data c) file ! 9 AND 1 = 0 \<and> drop (chunk_data c) file ! 9 AND 2 \<noteq> 0
          \<and> drop (chunk_data c) file ! 11 = 0 \<and> drop (chunk_data c) file ! 12 = 0 \<longrightarrow>
          (\<exists>h. main_header file c = Inr h
             \<and> hdr_bit_depth h = drop (chunk_data c) file ! 8
             \<and> hdr_pixel_size h = (if drop (chunk_data c) file ! 9 AND 4 \<noteq> 0 then 4 else 3)
                 * (unat (drop (chunk_data c) file ! 8) div 8)))"
proof -
  have "main_header file c = Inl (AssertionFailed a) \<Longrightarrow>
      \<forall>codec. png_main codec file = Inl (AssertionFailed a)" for a
    using png_main_header_failure [OF assms(1,2)] by simp
  moreover have "drop (chunk_data c) file ! 9 AND 1 \<noteq> 0 \<or> drop (chunk_data c) file ! 9 AND 2 = 0
          \<or> drop (chunk_data c) file ! 11 \<noteq> 0 \<or> drop (chunk_data c) file ! 12 \<noteq> 0 \<Longrightarrow>
      \<exists>a. main_header file c = Inl (AssertionFailed a)"
    using assms(3,4) by (auto simp: main_header_def Let_def)
  moreover have "drop (chunk_data c) file ! 9 AND 1 = 0 \<and> drop (chunk_data c) file ! 9 AND 2 \<noteq> 0
          \<and> drop (chunk_data c) file ! 11 = 0 \<and> drop (chunk_data c) file ! 12 = 0 \<Longrightarrow>
      \<exists>h. main_header file c = Inr h
             \<and> hdr_bit_depth h = drop (chunk_data c) file ! 8
             \<and> hdr_pixel_size h = (if drop (chunk_data c) file ! 9 AND 4 \<noteq> 0 then 4 else 3)
                 * (unat (drop (chunk_data c) file ! 8) div 8)"
    using assms(3,4) by (simp add: main_header_def Let_def)
  ultimately show ?thesis
    by blast
qed

theorem header_validation_witness:
  "(\<forall>codec. png_main codec
       [0x89, 0x50, 0x4E, 0x47, 0x0D, 0x0A, 0x1A, 0x0A,
        0, 0, 0, 13, 0x49, 0x48, 0x44, 0x52,
        0, 0, 0, 1, 0, 0, 0, 1, 8, 3, 0, 0, 0,
        0, 0, 0, 0] = Inl (AssertionFailed AssertTruecolor))
   \<and> (\<exists>h. main_header
       [0x89, 0x50, 0x4E, 0x47, 0x0D, 0x0A, 0x1A, 0x0A,
        0, 0, 0, 13, 0x49, 0x48, 0x44, 0x52,
        0, 0, 0, 1, 0, 0, 0, 1, 16, 6, 0, 0, 0,
        0, 0, 0, 0]
       \<lparr>chunk_size = 13, chunk_type = [0x49, 0x48, 0x44, 0x52], chunk_data = 16\<rparr> = Inr h
       \<and> hdr_bit_depth h = 16 \<and> hdr_pixel_size h = 8)"
proof -
  let ?pal = "[0x89, 0x50, 0x4E, 0x47, 0x0D, 0x0A, 0x1A, 0x0A,
        0, 0, 0, 13, 0x49, 0x48, 0x44, 0x52,
        0, 0, 0, 1, 0, 0, 0, 1, 8, 3, 0, 0, 0,
        0, 0, 0, 0] :: byte list"
  let ?deep = "[0x89, 0x50, 0x4E, 0x47, 0x0D, 0x0A, 0x1A, 0x0A,
        0, 0, 0, 13, 0x49, 0x48, 0x44, 0x52,
        0, 0, 0, 1, 0, 0, 0, 1, 16, 6, 0, 0, 0,
        0, 0, 0, 0] :: byte list"
  let ?c = "\<lparr>chunk_size = 13, chunk_type = [0x49, 0x48, 0x44, 0x52], chunk_data = 16\<rparr>"
  have c1: "png_check \<lparr>state_ptr = ?pal, state_size = length ?pal, state_index = 0\<rparr>
      = (0, \<lparr>state_ptr = ?pal, state_size = 33, state_index = 8\<rparr>)"
    by code_simp
  have c2: "png_check \<lparr>state_ptr = ?deep, state_size = length ?deep, state_index = 0\<rparr>
      = (0, \<lparr>state_ptr = ?deep, state_size = 33, state_index = 8\<rparr>)"
    by code_simp
  have f1: "png_fetch_next_chunk \<lparr>state_ptr = ?pal, state_size = 33, state_index = 8\<rparr>
      = (Some ?c, \<lparr>state_ptr = ?pal, state_size = 33, state_index = 33\<rparr>)"
    by code_simp
  have f2: "png_fetch_next_chunk \<lparr>state_ptr = ?deep, state_size = 33, state_index = 8\<rparr>
      = (Some ?c, \<lparr>state_ptr = ?deep, state_size = 33, state_index = 33\<rparr>)"
    by code_simp
  have t: "strncmp ihdr_tag (chunk_type ?c) 4 = 0"
    by code_simp
  have n: "chunk_size ?c = 13"
    by simp
  have m: "main_header ?pal ?c = Inl (AssertionFailed AssertTruecolor)"
    by code_simp
  from header_validation [OF c1 f1 t n] m
  have "\<forall>codec. png_main codec ?pal = Inl (AssertionFailed AssertTruecolor)"
    by simp
  moreover from header_validation [OF c2 f2 t n]
  have "\<exists>h. main_header ?deep ?c = Inr h \<and> hdr_bit_depth h = 16 \<and> hdr_pixel_size h = 8"
    by simp
  ultimately show ?thesis
    by blast
qed

text \<open>
  Claim C2 as stated rejects every bit depth other than 8 before the image data is
  processed. A file whose header declares bit depth 4 (1 by 1 pixel, colour type 2) passes
  the header assertions with pixel size 0; \<open>main\<close> goes on to the codec and, given one
  decompressed byte, completes the output.
\<close>

theorem header_bit_depth_counterexample:
  "png_main (stub_codec Z_OK [0])
     [0x89, 0x50, 0x4E, 0x47, 0x0D, 0x0A, 0x1A, 0x0A,
      0, 0, 0, 13, 0x49, 0x48, 0x44, 0x52,
      0, 0, 0, 1, 0, 0, 0, 1, 4, 2, 0, 0, 0,
      0, 0, 0, 0]
   = Inr (\<lparr>hdr_width = 1, hdr_height = 1, hdr_bit_depth = 4, hdr_color_type = 2,
           hdr_compression = 0, hdr_filter = 0, hdr_interlace = 0, hdr_pixel_size = 0\<rparr>,
          \<lparr>d_buf = [0], d_out = [EndOfRow], d_err = []\<rparr>)"
  by code_simp

section \<open>Reading a chunk\<close>

lemma be_host32_be32_bytes: "be_host32 (be32_bytes w) = w"
proof (rule bit_word_eqI)
  fix n
  assume "n < LENGTH(32)"
  then have n: "n < 32"
    by simp
  consider "n < 8" | "8 \<le> n" "n < 16" | "16 \<le> n" "n < 24" | "24 \<le> n"
    by linarith
  then show "bit (be_host32 (be32_bytes w)) n = bit w n"
  proof cases
    case 1
    with n show ?thesis by (simp add: be_host32_def be32_bytes_def bit_simps)
  next
    case 2
    then have "n - 8 < 8" by linarith
    with 2 n show ?thesis by (simp add: be_host32_def be32_bytes_def bit_simps)
  next
    case 3
    then have "n - 16 < 8" "\<not> n - 8 < 8" by linarith+
    with 3 n show ?thesis by (simp add: be_host32_def be32_bytes_def bit_simps)
  next
    case 4
    with n have "n - 24 < 8" "\<not> n - 8 < 8" "\<not> n - 16 < 8" by linarith+
    with 4 n show ?thesis by (simp add: be_host32_def be32_bytes_def bit_simps)
  qed
qed

text \<open>\<open>png_fetch_next_chunk\<close> by cases on the bytes left, for a cursor within a buffer
  of fewer than \<open>2 ^ 63\<close> bytes (no sum wraps there): the length is read big-endian,
  then the tag, then \<open>position + length + 4\<close> is compared with the size; a failure
  hands out no chunk.\<close>

lemma png_fetch_next_chunk_cases:
  assumes "state_index s \<le> state_size s" and "state_size s < 2 ^ 63"
  shows "png_fetch_next_chunk s =
     (if state_size s < state_index s + 4 then (None, s)
      else if state_size s < state_index s + 8 then (None, s\<lparr>state_index := state_index s + 4\<rparr>)
      else if state_size s
          < state_index s + 8 + unat (be_host32 (take 4 (drop (state_index s) (state_ptr s)))) + 4
        then (None, s\<lparr>state_index := state_index s + 8\<rparr>)
      else (Some \<lparr>chunk_size = be_host32 (take 4 (drop (state_index s) (state_ptr s))),
                  chunk_type = take 4 (drop (state_index s + 4) (state_ptr s)),
                  chunk_data = state_index s + 8\<rparr>,
            s\<lparr>state_index := state_index s + 8
               + unat (be_host32 (take 4 (drop (state_index s) (state_ptr s))) + 4)\<rparr>))"
proof -
  let ?sz = "be_host32 (take 4 (drop (state_index s) (state_ptr s)))"
  have "unat ?sz < 2 ^ 32" and "unat (?sz + 4) < 2 ^ 32"
    using unsigned_less [of ?sz, where 'a = nat] unsigned_less [of "?sz + 4", where 'a = nat]
    by simp_all
  with assms have "size_t (state_index s + 4) = state_index s + 4"
    and "size_t (state_index s + 4 + 4) = state_index s + 8"
    and "size_t (state_index s + 8 + unat ?sz + 4) = state_index s + 8 + unat ?sz + 4"
    and "size_t (state_index s + 8 + unat (?sz + 4)) = state_index s + 8 + unat (?sz + 4)"
    by (simp_all add: size_t_mod)
  then show ?thesis
    by (simp add: png_fetch_next_chunk_def png_fetch32_def png_fetchN_def Let_def)
qed

text \<open>When the declared length is below \<open>2 ^ 32 - 4\<close>, a successful read views exactly
  \<open>length\<close> payload bytes and leaves the cursor behind the payload and the checksum.\<close>

lemma png_fetch_next_chunk_in_range:
  assumes "png_fetch_next_chunk s = (Some c, s')"
    and "state_index s \<le> state_size s" and "state_size s < 2 ^ 63"
    and "state_size s = length (state_ptr s)"
    and "unat (chunk_size c) + 4 < 2 ^ 32"
  shows "chunk_size c = be_host32 (take 4 (drop (state_index s) (state_ptr s)))
    \<and> chunk_type c = take 4 (drop (state_index s + 4) (state_ptr s))
    \<and> length (chunk_payload (state_ptr s) c) = unat (chunk_size c)
    \<and> state_index s' = state_index s + 8 + unat (chunk_size c) + 4
    \<and> state_index s' \<le> state_size s'"
proof -
  have "unat (chunk_size c + 4) = unat (chunk_size c) + 4"
    using assms(5) by (simp add: unat_word_ariths)
  with assms(1,4) show ?thesis
    by (auto simp: png_fetch_next_chunk_cases [OF assms(2,3)] chunk_payload_def split: if_splits)
qed

text \<open>
  Claim C5 at a declared length of \<open>0xFFFFFFFC\<close> in a buffer of \<open>2 ^ 32 + 8\<close> bytes: the
  bound check \<open>8 + 4294967292 + 4 \<le> size\<close> passes in \<open>size_t\<close>, the chunk is handed out,
  and the advance \<open>out->size + 4\<close>, computed in \<open>uint32_t\<close>, is 0: the cursor stays at 8,
  the first payload byte, instead of moving behind the payload and the checksum.
\<close>

theorem png_fetch_next_chunk_wraps:
  "png_fetch_next_chunk
     \<lparr>state_ptr = [0xFF, 0xFF, 0xFF, 0xFC, 0x49, 0x44, 0x41, 0x54] @ replicate 4294967296 0,
      state_size = 4294967304, state_index = 0\<rparr>
   = (Some \<lparr>chunk_size = 0xFFFFFFFC, chunk_type = [0x49, 0x44, 0x41, 0x54], chunk_data = 8\<rparr>,
      \<lparr>state_ptr = [0xFF, 0xFF, 0xFF, 0xFC, 0x49, 0x44, 0x41, 0x54] @ replicate 4294967296 0,
       state_size = 4294967304, state_index = 8\<rparr>)"
proof -
  let ?s = "\<lparr>state_ptr = [0xFF, 0xFF, 0xFF, 0xFC, 0x49, 0x44, 0x41, 0x54] @ replicate 4294967296 0,
      state_size = 4294967304, state_index = 0\<rparr>"
  have "be_host32 [0xFF, 0xFF, 0xFF, 0xFC] = 0xFFFFFFFC"
    by (simp add: be_host32_def)
  moreover have "state_index ?s \<le> state_size ?s" and "state_size ?s < 2 ^ 63"
    by simp_all
  ultimately show ?thesis
    by (simp add: png_fetch_next_chunk_cases)
qed

section \<open>Gathering the image data in file order\<close>

lemma length_be32_bytes [simp]: "length (be32_bytes w) = 4"
  by (simp add: be32_bytes_def)

lemma fetch_chunk_bytes:
  assumes "length (fc_type c) = 4" and "length (fc_crc c) = 4"
    and "length (fc_payload c) + 4 < 2 ^ 32"
    and "length (pre @ chunk_bytes c @ rest) < 2 ^ 63"
  shows "png_fetch_next_chunk
      \<lparr>state_ptr = pre @ chunk_bytes c @ rest,
       state_size = length (pre @ chunk_bytes c @ rest),
       state_index = length pre\<rparr>
    = (Some \<lparr>chunk_size = word_of_nat (length (fc_payload c)), chunk_type = fc_type c,
             chunk_data = length pre + 8\<rparr>,
       \<lparr>state_ptr = pre @ chunk_bytes c @ rest,
        state_size = length (pre @ chunk_bytes c @ rest),
        state_index = length (pre @ chunk_bytes c)\<rparr>)"
proof -
  let ?len = "word_of_nat (length (fc_payload c)) :: 32 word"
  let ?s = "\<lparr>state_ptr = pre @ chunk_bytes c @ rest,
       state_size = length (pre @ chunk_bytes c @ rest),
       state_index = length pre\<rparr>"
  have within: "state_index ?s \<le> state_size ?s" "state_size ?s < 2 ^ 63"
    using assms(4) by simp_all
  have u: "unat ?len = length (fc_payload c)"
    using assms(3) by (simp add: unat_of_nat)
  have u4: "unat (?len + 4) = length (fc_payload c) + 4"
    using assms(3) u by (simp add: unat_word_ariths)
  have a: "take 4 (drop (length pre) (pre @ chunk_bytes c @ rest)) = be32_bytes ?len"
    by (simp add: chunk_bytes_def)
  have b: "take 4 (drop (length pre + 4) (pre @ chunk_bytes c @ rest)) = fc_type c"
    using assms(1) by (simp add: chunk_bytes_def)
  show ?thesis
    unfolding png_fetch_next_chunk_cases [OF within]
    using assms(1,2)
    by (simp only: png_state.simps a b be_host32_be32_bytes u u4) (simp add: chunk_bytes_def)
qed

lemma chunk_payload_chunk_bytes:
  assumes "length (fc_type c) = 4" and "length (fc_payload c) + 4 < 2 ^ 32"
  shows "chunk_payload (pre @ chunk_bytes c @ rest)
      \<lparr>chunk_size = word_of_nat (length (fc_payload c)), chunk_type = fc_type c,
       chunk_data = length pre + 8\<rparr> = fc_payload c"
proof -
  have "unat (word_of_nat (length (fc_payload c)) :: 32 word) = length (fc_payload c)"
    using assms(2) by (simp add: unat_of_nat)
  with assms(1) show ?thesis
    by (simp add: chunk_payload_def chunk_bytes_def)
qed

text \<open>The loop alone: it ends, with the payloads of the chunks tagged \<open>IDAT\<close> appended in
  the order of the file.\<close>

lemma idat_gather_concat:
  assumes "\<forall>c \<in> set cs.
      length (fc_type c) = 4 \<and> length (fc_crc c) = 4 \<and> length (fc_payload c) + 4 < 2 ^ 32"
    and "length (pre @ concat (map chunk_bytes cs)) < 2 ^ 63"
  shows "idat_gather
      \<lparr>state_ptr = pre @ concat (map chunk_bytes cs),
       state_size = length (pre @ concat (map chunk_bytes cs)),
       state_index = length pre\<rparr> input
    = Some (input @ concat (map fc_payload (filter (\<lambda>c. fc_type c = idat_tag) cs)))"
  using assms
proof (induction cs arbitrary: pre input)
  case Nil
  let ?s = "\<lparr>state_ptr = pre, state_size = length pre, state_index = length pre\<rparr>"
  have "state_index ?s \<le> state_size ?s" and "state_size ?s < 2 ^ 63"
    using Nil.prems(2) by simp_all
  then have "png_fetch_next_chunk ?s = (None, ?s)"
    by (simp add: png_fetch_next_chunk_cases)
  then show ?case
    by (subst idat_gather.simps) simp
next
  case (Cons c cs)
  from Cons.prems(1) have len: "length (fc_type c) = 4" "length (fc_crc c) = 4"
      "length (fc_payload c) + 4 < 2 ^ 32"
    and rest: "\<forall>c \<in> set cs.
      length (fc_type c) = 4 \<and> length (fc_crc c) = 4 \<and> length (fc_payload c) + 4 < 2 ^ 32"
    by simp_all
  let ?buf = "pre @ chunk_bytes c @ concat (map chunk_bytes cs)"
  let ?s = "\<lparr>state_ptr = ?buf, state_size = length ?buf, state_index = length pre\<rparr>"
  let ?s' = "\<lparr>state_ptr = ?buf, state_size = length ?buf,
      state_index = length (pre @ chunk_bytes c)\<rparr>"
  let ?ch = "\<lparr>chunk_size = word_of_nat (length (fc_payload c)), chunk_type = fc_type c,
      chunk_data = length pre + 8\<rparr>"
  have buf: "pre @ concat (map chunk_bytes (c # cs)) = ?buf"
    by simp
  have buf': "(pre @ chunk_bytes c) @ concat (map chunk_bytes cs) = ?buf"
    by simp
  from Cons.prems(2) have small: "length ?buf < 2 ^ 63"
    by simp
  have step: "png_fetch_next_chunk ?s = (Some ?ch, ?s')"
    by (rule fetch_chunk_bytes [OF len small])
  have pay: "chunk_payload (state_ptr ?s') ?ch = fc_payload c"
    unfolding png_state.simps by (rule chunk_payload_chunk_bytes [OF len(1,3)])
  have tag: "(strncmp idat_tag (chunk_type ?ch) 4 \<noteq> 0) = (fc_type c \<noteq> idat_tag)"
    using len(1) by (simp add: strncmp_idat)
  have unfold: "idat_gather ?s input
      = (if fc_type c \<noteq> idat_tag then idat_gather ?s' input
         else idat_gather ?s' (input @ fc_payload c))"
    by (subst idat_gather.simps) (simp only: step prod.case option.case pay tag)
  have ih: "idat_gather ?s' acc
      = Some (acc @ concat (map fc_payload (filter (\<lambda>c. fc_type c = idat_tag) cs)))" for acc
    using Cons.IH [OF rest, of "pre @ chunk_bytes c" acc] small unfolding buf' by simp
  show ?case
    unfolding buf unfold ih by simp
qed

text \<open>
  Claim C7. On a buffer of fewer than \<open>2 ^ 63\<close> bytes that holds a sequence of chunks
  from the cursor to its end (tags and checksums of four bytes, payloads shorter than
  \<open>2 ^ 32 - 4\<close>), the gathering loop ends and returns the payloads of exactly the chunks
  tagged \<open>IDAT\<close>, concatenated in the order of the file, behind what was gathered before;
  and what \<open>png_decompress_idat\<close> calls the codec with, whatever the codec, is that
  concatenation: the function's result is the outcome of the codec's answer on it.
\<close>

theorem png_decompress_idat_assembles:
  assumes "\<forall>c \<in> set cs.
      length (fc_type c) = 4 \<and> length (fc_crc c) = 4 \<and> length (fc_payload c) + 4 < 2 ^ 32"
    and "length (pre @ concat (map chunk_bytes cs)) < 2 ^ 63"
  shows "idat_gather
      \<lparr>state_ptr = pre @ concat (map chunk_bytes cs),
       state_size = length (pre @ concat (map chunk_bytes cs)),
       state_index = length pre\<rparr> input
    = Some (input @ concat (map fc_payload (filter (\<lambda>c. fc_type c = idat_tag) cs)))
   \<and> png_decompress_idat uncompress
      \<lparr>state_ptr = pre @ concat (map chunk_bytes cs),
       state_size = length (pre @ concat (map chunk_bytes cs)),
       state_index = length pre\<rparr> buf_size
    = uncompress_outcome
        (uncompress (concat (map fc_payload (filter (\<lambda>c. fc_type c = idat_tag) cs))) buf_size)
        buf_size"
  using idat_gather_concat [OF assms, of input] idat_gather_concat [OF assms, of "[]"]
  by (simp add: png_decompress_idat_def)

text \<open>Two \<open>IDAT\<close> chunks \<open>AB\<close> and \<open>CD\<close> with a \<open>tEXt\<close> chunk between them: a codec
  that hands back its input is called with \<open>ABCD\<close>.\<close>

theorem png_decompress_idat_assembles_witness:
  "idat_gather
     \<lparr>state_ptr = [7, 7,
        0, 0, 0, 2, 0x49, 0x44, 0x41, 0x54, 0x41, 0x42, 0, 0, 0, 0,
        0, 0, 0, 1, 0x74, 0x45, 0x58, 0x74, 0x58, 0, 0, 0, 0,
        0, 0, 0, 2, 0x49, 0x44, 0x41, 0x54, 0x43, 0x44, 0, 0, 0, 0],
      state_size = 43, state_index = 2\<rparr> []
   = Some [0x41, 0x42, 0x43, 0x44]
   \<and> png_decompress_idat echo_codec
     \<lparr>state_ptr = [7, 7,
        0, 0, 0, 2, 0x49, 0x44, 0x41, 0x54, 0x41, 0x42, 0, 0, 0, 0,
        0, 0, 0, 1, 0x74, 0x45, 0x58, 0x74, 0x58, 0, 0, 0, 0,
        0, 0, 0, 2, 0x49, 0x44, 0x41, 0x54, 0x43, 0x44, 0, 0, 0, 0],
      state_size = 43, state_index = 2\<rparr> 4
   = Inr [0x41, 0x42, 0x43, 0x44]"
proof -
  let ?cs = "[FileChunk [0x49, 0x44, 0x41, 0x54] [0x41, 0x42] [0, 0, 0, 0],
      FileChunk [0x74, 0x45, 0x58, 0x74] [0x58] [0, 0, 0, 0],
      FileChunk [0x49, 0x44, 0x41, 0x54] [0x43, 0x44] [0, 0, 0, 0]]"
  have bytes: "[7, 7] @ concat (map chunk_bytes ?cs)
      = [7, 7,
        0, 0, 0, 2, 0x49, 0x44, 0x41, 0x54, 0x41, 0x42, 0, 0, 0, 0,
        0, 0, 0, 1, 0x74, 0x45, 0x58, 0x74, 0x58, 0, 0, 0, 0,
        0, 0, 0, 2, 0x49, 0x44, 0x41, 0x54, 0x43, 0x44, 0, 0, 0, 0]"
    by (simp add: chunk_bytes_def be32_bytes_def)
  have l: "length [7, 7,
        0, 0, 0, 2, 0x49, 0x44, 0x41, 0x54, 0x41, 0x42, 0, 0, 0, 0,
        0, 0, 0, 1, 0x74, 0x45, 0x58, 0x74, 0x58, 0, 0, 0, 0,
        0, 0, 0, 2, 0x49, 0x44, 0x41, 0x54, 0x43, 0x44, 0, 0, 0, 0 :: byte] = 43"
      "length [7 :: byte, 7] = 2"
    by simp_all
  have r: "concat (map fc_payload (filter (\<lambda>c. fc_type c = idat_tag) ?cs))
      = [0x41, 0x42, 0x43, 0x44]"
    by (simp add: idat_tag_def)
  have wf: "\<forall>c \<in> set ?cs.
      length (fc_type c) = 4 \<and> length (fc_crc c) = 4 \<and> length (fc_payload c) + 4 < 2 ^ 32"
    by simp
  have small: "length ([7, 7] @ concat (map chunk_bytes ?cs)) < 2 ^ 63"
    unfolding bytes l by simp
  have out: "uncompress_outcome (echo_codec [0x41, 0x42, 0x43, 0x44] 4) 4
      = Inr [0x41, 0x42, 0x43, 0x44]"
    by (simp add: uncompress_outcome_def echo_codec_def)
  from png_decompress_idat_assembles [OF wf small, of "[]" echo_codec 4] show ?thesis
    unfolding bytes l r out by simp
qed

section \<open>The defiltering loop\<close>

lemma fold_upt_invariant:
  assumes "P 0 s" and "\<And>k s. k < n \<Longrightarrow> P k s \<Longrightarrow> P (Suc k) (f k s)"
  shows "P n (fold f [0..<n] s)"
  using assms(2)
proof (induction n)
  case 0
  from assms(1) show ?case by simp
next
  case (Suc n)
  then have "P n (fold f [0..<n] s)"
    by simp
  with Suc.prems [of n] show ?case
    by simp
qed

lemma row_index_bounds:
  fixes ps w x i :: nat
  assumes "x < w" and "i < ps"
  shows "x * ps + i < w * ps"
proof -
  have "x * ps + i < x * ps + ps"
    using assms(2) by simp
  also have "\<dots> = Suc x * ps"
    by simp
  also have "\<dots> \<le> w * ps"
    using assms(1) by (intro mult_le_mono1) simp
  finally show ?thesis .
qed

lemma d_buf_defilter_byte:
  "d_buf (defilter_byte fm line prev ps x i st)
     = (d_buf st)[line + (x * ps + i) := switch_filter fm (d_buf st) line prev ps x i]"
  by (simp add: defilter_byte_def Let_def)

section \<open>A filter byte outside 0 to 4\<close>








section \<open>Filtering, then defiltering\<close>

lemma length_concat_uniform:
  assumes "\<forall>r \<in> set rs. length r = n"
  shows "length (concat rs) = length rs * n"
  using assms by (induction rs) simp_all

lemma nth_concat_uniform:
  assumes "\<forall>r \<in> set rs. length r = n" and "y < length rs" and "k < n"
  shows "concat rs ! (y * n + k) = rs ! y ! k"
  using assms
proof (induction rs arbitrary: y)
  case Nil
  then show ?case by simp
next
  case (Cons r rs)
  show ?case
  proof (cases y)
    case 0
    with Cons.prems show ?thesis
      by (simp add: nth_append)
  next
    case (Suc y')
    with Cons.prems have "concat rs ! (y' * n + k) = rs ! y' ! k"
      by (intro Cons.IH) simp_all
    moreover have "Suc y' * n + k = length r + (y' * n + k)"
      using Cons.prems(1) by simp
    ultimately show ?thesis
      using Suc by (simp only: concat.simps nth_append_length_plus nth_Cons_Suc)
  qed
qed

lemma hybrid_nth:
  assumes "length orig = length enc" and "q < length orig"
  shows "hybrid orig enc n ! q = (if q < n then orig ! q else enc ! q)"
  using assms by (auto simp: hybrid_def nth_append min_def)

lemma length_hybrid:
  assumes "length orig = length enc"
  shows "length (hybrid orig enc n) = length enc"
  using assms by (simp add: hybrid_def)

lemma hybrid_update:
  assumes "length orig = length enc" and "p < length orig"
  shows "(hybrid orig enc p)[p := orig ! p] = hybrid orig enc (Suc p)"
proof (rule nth_equalityI)
  show "length ((hybrid orig enc p)[p := orig ! p]) = length (hybrid orig enc (Suc p))"
    using assms(1) by (simp add: length_hybrid)
next
  fix q
  assume "q < length ((hybrid orig enc p)[p := orig ! p])"
  then have q: "q < length orig"
    using assms(1) by (simp add: length_hybrid)
  with assms show "(hybrid orig enc p)[p := orig ! p] ! q = hybrid orig enc (Suc p) ! q"
    by (cases "q = p") (auto simp: hybrid_nth length_hybrid)
qed

lemma hybrid_same:
  assumes "length orig = length enc" and "p < length orig" and "orig ! p = enc ! p"
  shows "hybrid orig enc p = hybrid orig enc (Suc p)"
proof -
  have "(hybrid orig enc p)[p := orig ! p] = hybrid orig enc p"
    using assms by (intro list_update_same_conv [THEN iffD2]) (simp_all add: hybrid_nth length_hybrid)
  with hybrid_update [OF assms(1,2)] show ?thesis
    by simp
qed

text \<open>The bytes of the plain and of the filtered image.\<close>

lemma tagged_rows_nth:
  assumes "\<forall>r \<in> set rows. length r = n" and "y < length rows"
  shows "length (tagged_rows t rows) = length rows * (n + 1)"
    and "tagged_rows t rows ! (y * (n + 1)) = t"
    and "j < n \<Longrightarrow> tagged_rows t rows ! (y * (n + 1) + 1 + j) = rows ! y ! j"
proof -
  let ?rs = "map (\<lambda>row. t # row) rows"
  have u: "\<forall>r \<in> set ?rs. length r = n + 1"
    using assms(1) by simp
  show "length (tagged_rows t rows) = length rows * (n + 1)"
    using length_concat_uniform [OF u] by (simp add: tagged_rows_def)
  show "tagged_rows t rows ! (y * (n + 1)) = t"
    using nth_concat_uniform [OF u, of y 0] assms(2) by (simp add: tagged_rows_def)
  show "tagged_rows t rows ! (y * (n + 1) + 1 + j) = rows ! y ! j" if "j < n"
    using nth_concat_uniform [OF u, of y "1 + j"] assms(2) that
    by (simp add: tagged_rows_def add.assoc)
qed

lemma filter_image_nth:
  assumes "\<forall>r \<in> set rows. length r = n" and "y < length rows"
  shows "length (filter_image t ps rows) = length rows * (n + 1)"
    and "filter_image t ps rows ! (y * (n + 1)) = t"
    and "j < n \<Longrightarrow> filter_image t ps rows ! (y * (n + 1) + 1 + j)
      = rows ! y ! j
        - predictor t (if ps \<le> j then rows ! y ! (j - ps) else 0)
            (if y = 0 then 0 else rows ! (y - 1) ! j)
            (if ps \<le> j \<and> y \<noteq> 0 then rows ! (y - 1) ! (j - ps) else 0)"
proof -
  let ?prev = "\<lambda>y. if y = 0 then replicate (length (rows ! 0)) 0 else rows ! (y - 1)"
  let ?rs = "map (\<lambda>y. t # filter_row t ps (?prev y) (rows ! y)) [0..<length rows]"
  have rl: "length (rows ! k) = n" if "k < length rows" for k
    using assms(1) that by simp
  from assms(2) have rl0: "length (rows ! 0) = n"
    by (intro rl) auto
  have u: "\<forall>r \<in> set ?rs. length r = n + 1"
    using rl by (auto simp: filter_row_def)
  show "length (filter_image t ps rows) = length rows * (n + 1)"
    using length_concat_uniform [OF u] by (simp add: filter_image_def)
  show "filter_image t ps rows ! (y * (n + 1)) = t"
    using nth_concat_uniform [OF u, of y 0] assms(2) by (simp add: filter_image_def)
  show "filter_image t ps rows ! (y * (n + 1) + 1 + j)
      = rows ! y ! j
        - predictor t (if ps \<le> j then rows ! y ! (j - ps) else 0)
            (if y = 0 then 0 else rows ! (y - 1) ! j)
            (if ps \<le> j \<and> y \<noteq> 0 then rows ! (y - 1) ! (j - ps) else 0)" if j: "j < n"
  proof -
    have "filter_image t ps rows ! (y * (n + 1) + 1 + j)
        = filter_row t ps (?prev y) (rows ! y) ! j"
      using nth_concat_uniform [OF u, of y "1 + j"] assms(2) j
      by (simp add: filter_image_def add.assoc)
    also have "\<dots> = rows ! y ! j
        - predictor t (if ps \<le> j then rows ! y ! (j - ps) else 0) (?prev y ! j)
            (if ps \<le> j then ?prev y ! (j - ps) else 0)"
      using j rl [OF assms(2)] by (simp add: filter_row_def)
    also have "?prev y ! j = (if y = 0 then 0 else rows ! (y - 1) ! j)"
      using j rl0 by simp
    also have "(if ps \<le> j then ?prev y ! (j - ps) else 0)
        = (if ps \<le> j \<and> y \<noteq> 0 then rows ! (y - 1) ! (j - ps) else 0)"
      using j rl0 by simp
    finally show ?thesis .
  qed
qed

lemma left_index:
  fixes ps x i :: nat
  assumes "x \<noteq> 0"
  shows "ps * (x - 1) + i = x * ps + i - ps" and "ps \<le> x * ps + i"
proof -
  from assms obtain x' where "x = Suc x'"
    by (cases x) auto
  then show "ps * (x - 1) + i = x * ps + i - ps" and "ps \<le> x * ps + i"
    by simp_all
qed

lemma defilter_byte_restores:
  fixes rows :: "byte list list"
  assumes rl: "\<forall>r \<in> set rows. length r = w * ps" and t: "t \<in> {0, 1, 2, 3, 4}"
    and y: "y < length rows" and x: "x < w" and i: "i < ps"
    and buf: "d_buf st = hybrid (tagged_rows t rows) (filter_image t ps rows)
        (y * (w * ps + 1) + 1 + (x * ps + i))"
  shows "d_buf (defilter_byte t (y * (w * ps + 1) + 1)
        (if y \<noteq> 0 then Some ((y - 1) * (w * ps + 1) + 1) else None) ps x i st)
      = hybrid (tagged_rows t rows) (filter_image t ps rows)
          (y * (w * ps + 1) + 1 + (x * ps + Suc i))"
proof -
  define S where "S = w * ps + 1"
  define orig where "orig = tagged_rows t rows"
  define enc where "enc = filter_image t ps rows"
  define j where "j = x * ps + i"
  define line where "line = y * S + 1"
  define prev where "prev = (if y \<noteq> 0 then Some ((y - 1) * S + 1) else None)"
  define mem where "mem = hybrid orig enc (line + j)"
  have j: "j < w * ps"
    unfolding j_def by (rule row_index_bounds [OF x i])
  have lens: "length orig = length rows * S" "length enc = length rows * S"
    unfolding orig_def enc_def S_def
    by (rule tagged_rows_nth(1) [OF rl y], rule filter_image_nth(1) [OF rl y])
  have same: "length orig = length enc"
    using lens by simp
  have "Suc y * S \<le> length rows * S"
    using y by (intro mult_le_mono1) simp
  then have row_fits: "y * S + S \<le> length orig"
    using lens by simp
  then have p: "line + j < length orig"
    using j by (simp add: line_def S_def)
  have orig_data: "orig ! (y' * S + 1 + k) = rows ! y' ! k" if "y' < length rows" "k < w * ps" for y' k
    unfolding orig_def S_def by (rule tagged_rows_nth(3) [OF rl that])
  have before: "mem ! q = orig ! q" if "q < line + j" for q
    unfolding mem_def using that p by (simp add: hybrid_nth [OF same])
  have raw: "mem ! (line + (ps * x + i)) = enc ! (line + j)"
    unfolding mem_def j_def using p [unfolded j_def]
    by (simp add: hybrid_nth [OF same] mult.commute)
  have left: "left_of mem line ps x i = (if ps \<le> j then rows ! y ! (j - ps) else 0)"
  proof (cases "x = 0")
    case True
    with i show ?thesis
      by (simp add: left_of_def j_def)
  next
    case False
    have jp: "ps * (x - 1) + i = j - ps" "ps \<le> j"
      unfolding j_def by (rule left_index(1) [OF False], rule left_index(2) [OF False])
    then have "line + (ps * (x - 1) + i) < line + j"
      using i by simp
    then have "mem ! (line + (ps * (x - 1) + i)) = orig ! (y * S + 1 + (j - ps))"
      using jp by (simp add: before line_def)
    also have "\<dots> = rows ! y ! (j - ps)"
      using y j by (intro orig_data) simp_all
    finally show ?thesis
      using False jp by (simp add: left_of_def)
  qed
  have up: "up_of mem prev ps x i = (if y = 0 then 0 else rows ! (y - 1) ! j)"
  proof (cases "y = 0")
    case True
    then show ?thesis
      by (simp add: up_of_def prev_def)
  next
    case False
    then have "(y - 1) * S + S = y * S"
      by (simp add: diff_mult_distrib)
    then have "(y - 1) * S + 1 + (ps * x + i) < line + j"
      using j by (simp add: line_def j_def S_def mult.commute)
    then have "mem ! ((y - 1) * S + 1 + (ps * x + i)) = orig ! ((y - 1) * S + 1 + j)"
      by (simp add: before j_def mult.commute)
    also have "\<dots> = rows ! (y - 1) ! j"
      using y j by (intro orig_data) simp_all
    finally show ?thesis
      using False by (simp add: up_of_def prev_def)
  qed
  have up_left: "up_left_of mem prev ps x i
      = (if ps \<le> j \<and> y \<noteq> 0 then rows ! (y - 1) ! (j - ps) else 0)"
  proof (cases "y = 0 \<or> x = 0")
    case True
    with i show ?thesis
      by (auto simp: up_left_of_def prev_def j_def)
  next
    case False
    then have x0: "x \<noteq> 0"
      by simp
    have jp: "ps * (x - 1) + i = j - ps" "ps \<le> j"
      unfolding j_def by (rule left_index(1) [OF x0], rule left_index(2) [OF x0])
    from False have "(y - 1) * S + S = y * S"
      by (simp add: diff_mult_distrib)
    then have "(y - 1) * S + 1 + (j - ps) < line + j"
      using j by (simp add: line_def S_def)
    then have "mem ! ((y - 1) * S + 1 + (ps * (x - 1) + i)) = orig ! ((y - 1) * S + 1 + (j - ps))"
      using jp by (simp add: before)
    also have "\<dots> = rows ! (y - 1) ! (j - ps)"
      using y j by (intro orig_data) simp_all
    finally show ?thesis
      using False jp by (simp add: up_left_of_def prev_def)
  qed
  have "enc ! (line + j)
      = rows ! y ! j
        - predictor t (if ps \<le> j then rows ! y ! (j - ps) else 0)
            (if y = 0 then 0 else rows ! (y - 1) ! j)
            (if ps \<le> j \<and> y \<noteq> 0 then rows ! (y - 1) ! (j - ps) else 0)"
    unfolding enc_def line_def S_def by (rule filter_image_nth(3) [OF rl y j])
  then have "switch_filter t mem line prev ps x i = rows ! y ! j"
    unfolding switch_filter_predictor [OF t] raw left up up_left by simp
  also have "\<dots> = orig ! (line + j)"
    unfolding line_def using y j by (rule orig_data [symmetric])
  finally have restored: "switch_filter t mem line prev ps x i = orig ! (line + j)" .
  have "d_buf (defilter_byte t line prev ps x i st) = mem[line + j := orig ! (line + j)]"
    using buf restored
    unfolding d_buf_defilter_byte mem_def line_def prev_def S_def j_def orig_def enc_def
    by (simp add: add.assoc)
  also have "\<dots> = hybrid orig enc (Suc (line + j))"
    unfolding mem_def by (rule hybrid_update [OF same p])
  finally show ?thesis
    unfolding line_def prev_def S_def j_def orig_def enc_def by simp
qed

lemma d_err_defilter_byte_valid:
  "t \<in> {0, 1, 2, 3, 4} \<Longrightarrow> d_err (defilter_byte t line prev ps x i st) = d_err st"
  by (simp add: defilter_byte_def Let_def)

lemma defilter_row_restores:
  fixes rows :: "byte list list"
  assumes rl: "\<forall>r \<in> set rows. length r = w * ps" and t: "t \<in> {0, 1, 2, 3, 4}"
    and y: "y < length rows"
    and buf: "d_buf st = hybrid (tagged_rows t rows) (filter_image t ps rows) (y * (w * ps + 1))"
  shows "\<exists>s'. defilter_row w ps y st = Inr s'
    \<and> d_buf s' = hybrid (tagged_rows t rows) (filter_image t ps rows) (Suc y * (w * ps + 1))
    \<and> d_err s' = d_err st"
proof -
  define S where "S = w * ps + 1"
  define orig where "orig = tagged_rows t rows"
  define enc where "enc = filter_image t ps rows"
  define line where "line = y * S + 1"
  define prev where "prev = (if y \<noteq> 0 then Some ((y - 1) * S + 1) else None)"
  define inv where "inv = (\<lambda>n (s :: decode_state).
    d_buf s = hybrid orig enc (line + n) \<and> d_err s = d_err st)"
  have lens: "length orig = length rows * S" "length enc = length rows * S"
    unfolding orig_def enc_def S_def
    by (rule tagged_rows_nth(1) [OF rl y], rule filter_image_nth(1) [OF rl y])
  have same: "length orig = length enc"
    using lens by simp
  have "Suc y * S \<le> length rows * S"
    using y by (intro mult_le_mono1) simp
  then have tag_pos: "y * S < length orig"
    using lens by (simp add: S_def)
  have tags: "orig ! (y * S) = t" "enc ! (y * S) = t"
    unfolding orig_def enc_def S_def
    by (rule tagged_rows_nth(2) [OF rl y], rule filter_image_nth(2) [OF rl y])
  have buf': "d_buf st = hybrid orig enc (y * S)"
    using buf unfolding S_def orig_def enc_def .
  have fm: "d_buf st ! (y * S) = t"
    unfolding buf' using tags tag_pos by (simp add: hybrid_nth [OF same])
  have "hybrid orig enc (y * S) = hybrid orig enc (Suc (y * S))"
    using tags by (intro hybrid_same [OF same tag_pos]) simp
  then have start: "d_buf st = hybrid orig enc line"
    unfolding buf' line_def by simp
  have "inv (w * ps) (fold (defilter_pixel t line prev ps) [0..<w] st)"
  proof (rule fold_upt_invariant [where P = "\<lambda>k. inv (k * ps)"])
    show "inv (0 * ps) st"
      using start by (simp add: inv_def)
  next
    fix x s
    assume x: "x < w" and s: "inv (x * ps) s"
    have "inv (x * ps + ps) (defilter_pixel t line prev ps x s)"
      unfolding defilter_pixel_def
    proof (rule fold_upt_invariant [where P = "\<lambda>k. inv (x * ps + k)"])
      show "inv (x * ps + 0) s"
        using s by simp
    next
      fix i s'
      assume i: "i < ps" and s': "inv (x * ps + i) s'"
      from s' have "d_buf s' = hybrid (tagged_rows t rows) (filter_image t ps rows)
          (y * (w * ps + 1) + 1 + (x * ps + i))"
        by (simp add: inv_def line_def S_def orig_def enc_def)
      from defilter_byte_restores [OF rl t y x i this] s'
      show "inv (x * ps + Suc i) (defilter_byte t line prev ps x i s')"
        unfolding inv_def line_def prev_def S_def orig_def enc_def
        by (simp add: d_err_defilter_byte_valid [OF t])
    qed
    then show "inv (Suc x * ps) (defilter_pixel t line prev ps x s)"
      by (simp add: add.commute)
  qed
  then have "d_buf (fold (defilter_pixel t line prev ps) [0..<w] st)
        = hybrid orig enc (line + w * ps)
      \<and> d_err (fold (defilter_pixel t line prev ps) [0..<w] st) = d_err st"
    by (simp add: inv_def)
  moreover have "line + w * ps = Suc y * S"
    by (simp add: line_def S_def)
  ultimately have "d_buf (fold (defilter_pixel t line prev ps) [0..<w] st)
        = hybrid orig enc (Suc y * S)
      \<and> d_err (fold (defilter_pixel t line prev ps) [0..<w] st) = d_err st"
    by (simp only:)
  moreover have "\<not> length filter_methods \<le> unat t"
    using t by (auto simp: filter_methods_def)
  ultimately show ?thesis
    using fm
    unfolding defilter_row_def defilter_line_def Let_def line_def prev_def S_def orig_def enc_def
    by simp
qed

text \<open>
  Claim C4. For every filter type \<open>t\<close> from 0 to 4 and every image of \<open>h\<close> rows of \<open>w\<close>
  pixels of \<open>ps\<close> bytes (two or more rows and columns included), filtering each row with
  type \<open>t\<close> and running the defiltering loop on the result restores the rows exactly: the
  loop runs to its end, the buffer then holds every row unfiltered behind its type byte,
  and no \<open>invalid filter\<close> message is added.
\<close>

theorem defilter_filter_image:
  fixes rows :: "byte list list"
  assumes "t \<in> {0, 1, 2, 3, 4}" and "length rows = h" and "\<forall>r \<in> set rows. length r = w * ps"
  shows "\<exists>st'.
      defilter w h ps \<lparr>d_buf = filter_image t ps rows, d_out = out, d_err = err\<rparr> = Inr st'
    \<and> d_buf st' = tagged_rows t rows \<and> d_err st' = err"
proof -
  let ?st = "\<lparr>d_buf = filter_image t ps rows, d_out = out, d_err = err\<rparr>"
  let ?S = "w * ps + 1"
  let ?step = "\<lambda>y r. case r of Inl e \<Rightarrow> Inl e | Inr s \<Rightarrow> defilter_row w ps y s"
  define inv where "inv = (\<lambda>y (r :: error + decode_state). \<exists>s. r = Inr s
    \<and> d_buf s = hybrid (tagged_rows t rows) (filter_image t ps rows) (y * ?S) \<and> d_err s = err)"
  have "inv h (fold ?step [0..<h] (Inr ?st))"
  proof (rule fold_upt_invariant [where P = inv])
    show "inv 0 (Inr ?st)"
      by (simp add: inv_def hybrid_def)
  next
    fix y r
    assume "y < h" and "inv y r"
    then obtain s where "r = Inr s"
      and "d_buf s = hybrid (tagged_rows t rows) (filter_image t ps rows) (y * ?S)"
      and "d_err s = err"
      unfolding inv_def by blast
    with defilter_row_restores [OF assms(3,1), of y s] assms(2) \<open>y < h\<close>
    show "inv (Suc y) (?step y r)"
      by (simp add: inv_def)
  qed
  moreover have "hybrid (tagged_rows t rows) (filter_image t ps rows) (h * ?S) = tagged_rows t rows"
  proof (cases "h = 0")
    case True
    with assms(2) show ?thesis
      by (simp add: hybrid_def tagged_rows_def filter_image_def)
  next
    case False
    with assms(2) have "0 < length rows"
      by simp
    from tagged_rows_nth(1) [OF assms(3) this, of t] filter_image_nth(1) [OF assms(3) this, of t ps]
    show ?thesis
      using assms(2) by (simp add: hybrid_def)
  qed
  ultimately show ?thesis
    by (simp add: inv_def defilter_def)
qed

text \<open>A 2 by 2 image of 3-byte pixels under the Paeth filter, and a 2 by 2 image of
  1-byte pixels under the Average filter whose sum \<open>left + up\<close> exceeds 255.\<close>

theorem defilter_filter_image_witness:
  "filter_image 4 3 [[10, 20, 30, 40, 50, 60], [15, 25, 35, 200, 100, 50]]
     = [4, 10, 20, 30, 30, 30, 30, 4, 5, 5, 5, 160, 50, 246]
   \<and> (\<exists>st'. defilter 2 2 3
          \<lparr>d_buf = [4, 10, 20, 30, 30, 30, 30, 4, 5, 5, 5, 160, 50, 246], d_out = [], d_err = []\<rparr>
        = Inr st'
      \<and> d_buf st' = [4, 10, 20, 30, 40, 50, 60, 4, 15, 25, 35, 200, 100, 50] \<and> d_err st' = [])
   \<and> filter_image 3 1 [[200, 100], [200, 250]] = [3, 200, 0, 3, 100, 100]
   \<and> (\<exists>st'. defilter 2 2 1 \<lparr>d_buf = [3, 200, 0, 3, 100, 100], d_out = [], d_err = []\<rparr> = Inr st'
      \<and> d_buf st' = [3, 200, 100, 3, 200, 250] \<and> d_err st' = [])"
proof -
  let ?rows = "[[10, 20, 30, 40, 50, 60], [15, 25, 35, 200, 100, 50]] :: byte list list"
  let ?rows' = "[[200, 100], [200, 250]] :: byte list list"
  have enc: "filter_image 4 3 ?rows = [4, 10, 20, 30, 30, 30, 30, 4, 5, 5, 5, 160, 50, 246]"
    by code_simp
  have enc': "filter_image 3 1 ?rows' = [3, 200, 0, 3, 100, 100]"
    by code_simp
  have "(4 :: byte) \<in> {0, 1, 2, 3, 4}" and "length ?rows = 2"
    and "\<forall>r \<in> set ?rows. length r = 2 * 3"
    by simp_all
  from defilter_filter_image [OF this, of "[]" "[]"]
  have 1: "\<exists>st'. defilter 2 2 3 \<lparr>d_buf = filter_image 4 3 ?rows, d_out = [], d_err = []\<rparr> = Inr st'
      \<and> d_buf st' = tagged_rows 4 ?rows \<and> d_err st' = []" .
  have "(3 :: byte) \<in> {0, 1, 2, 3, 4}" and "length ?rows' = 2"
    and "\<forall>r \<in> set ?rows'. length r = 2 * 1"
    by simp_all
  from defilter_filter_image [OF this, of "[]" "[]"]
  have 2: "\<exists>st'. defilter 2 2 1 \<lparr>d_buf = filter_image 3 1 ?rows', d_out = [], d_err = []\<rparr> = Inr st'
      \<and> d_buf st' = tagged_rows 3 ?rows' \<and> d_err st' = []" .
  from 1 2 enc enc' show ?thesis
    by (simp add: tagged_rows_def)
qed

end
